theory Spec2Isabelle
  imports Complex_Main
begin

section \<open>Markov chain intraday prediction: the data model\<close>

text \<open>
  The embedding follows \<^verbatim>\<open>strategy_files/markov_trading_system.py\<close>. Prices and
  probabilities are rationals: every quotient of the source is then exact. The loader drops
  rows with a missing value, so a close price is always comparable with its neighbour.
\<close>

datatype move = UP | DOWN | FLAT

type_synonym pattern = "move \<times> move \<times> move"

text \<open>
  A Python dict keeps its keys in insertion order and holds each key once. It is an
  association list here; a \<^verbatim>\<open>Counter\<close> maps a move to its count.
\<close>

type_synonym counter = "(move \<times> nat) list"
type_synonym pattern_counts = "(pattern \<times> counter) list"
type_synonym distribution = "(move \<times> rat) list"
type_synonym transition_matrix = "(pattern \<times> distribution) list"

datatype error =
    ModelTrainingFailed
  | InvalidDateFormat
  | DateNotInDataset
  | NoPreviousDay
  | InsufficientIntradayData
  | NoMatchingPatterns
  | ZeroDivisionError
  | ValueError

section \<open>The model builder\<close>

text \<open>
  Lines 73 to 80: one symbol for each index from 1 to the last, comparing a close with
  the one before it.
\<close>

definition movements_of :: "rat list \<Rightarrow> move list" where
  "movements_of closes =
     map (\<lambda>i. if closes ! i > closes ! (i - 1) then UP
              else if closes ! i < closes ! (i - 1) then DOWN
              else FLAT)
         [1..<length closes]"

text \<open>
  \<^verbatim>\<open>d[k] = f(d[k])\<close> on a dict with a default for a missing key, as
  \<^verbatim>\<open>defaultdict\<close> and \<^verbatim>\<open>Counter\<close> do: a key already present is updated where
  it stands, a new key goes to the end.
\<close>

fun dict_modify :: "'v \<Rightarrow> ('v \<Rightarrow> 'v) \<Rightarrow> 'k \<Rightarrow> ('k \<times> 'v) list \<Rightarrow> ('k \<times> 'v) list" where
  "dict_modify dflt f k [] = [(k, f dflt)]"
| "dict_modify dflt f k ((k', v) # kvs) =
     (if k' = k then (k', f v) # kvs else (k', v) # dict_modify dflt f k kvs)"

text \<open>Line 85: \<^verbatim>\<open>pattern_counts[pattern][next_move] += 1\<close>.\<close>

definition count_obs :: "pattern_counts \<Rightarrow> pattern \<Rightarrow> move \<Rightarrow> pattern_counts" where
  "count_obs pc p m = dict_modify [] (dict_modify 0 Suc m) p pc"

text \<open>Line 83: the pattern that ends just before index \<open>i\<close>.\<close>

definition pattern_at :: "move list \<Rightarrow> nat \<Rightarrow> pattern" where
  "pattern_at movements i = (movements ! (i - 3), movements ! (i - 2), movements ! (i - 1))"

text \<open>Lines 82 to 85: the loop over every index from 3 on.\<close>

definition count_patterns :: "move list \<Rightarrow> pattern_counts" where
  "count_patterns movements =
     fold (\<lambda>i pc. count_obs pc (pattern_at movements i) (movements ! i))
          [3..<length movements] []"

text \<open>
  Lines 88 to 91 for one pattern: each count over the pattern's total. Python raises
  \<^verbatim>\<open>ZeroDivisionError\<close> at the first quotient when the total is zero; with no count
  at all there is no quotient.
\<close>

definition to_distribution :: "counter \<Rightarrow> distribution option" where
  "to_distribution c =
     (let total = sum_list (map snd c)
      in if c \<noteq> [] \<and> total = 0 then None
         else Some (map (\<lambda>(m, n). (m, of_nat n / of_nat total)) c))"

text \<open>Lines 87 to 91: the loop over the patterns, in their order.\<close>

fun normalize_all :: "pattern_counts \<Rightarrow> error + transition_matrix" where
  "normalize_all [] = Inr []"
| "normalize_all ((p, c) # rest) =
     (case to_distribution c of
        None \<Rightarrow> Inl ZeroDivisionError
      | Some d \<Rightarrow>
          (case normalize_all rest of
             Inl e \<Rightarrow> Inl e
           | Inr tm \<Rightarrow> Inr ((p, d) # tm)))"

text \<open>
  \<^verbatim>\<open>build_markov_model\<close>, on the column of closes. \<open>Inr None\<close> is the returned pair
  \<^verbatim>\<open>(None, None)\<close>; \<open>Inl\<close> is an exception raised.
\<close>

definition build_markov_model ::
  "rat list \<Rightarrow> error + (transition_matrix \<times> pattern_counts) option" where
  "build_markov_model closes =
     (if length closes < 4 then Inr None
      else
        (let movements = movements_of closes;
             pattern_counts = count_patterns movements
         in case normalize_all pattern_counts of
              Inl e \<Rightarrow> Inl e
            | Inr tm \<Rightarrow> Inr (Some (tm, pattern_counts))))"

section \<open>The predictor\<close>

text \<open>
  A row of the loaded table, with the columns the program reads. \<open>TradingDay\<close> is the
  calendar date of the row's timestamp, as a day number.
\<close>

record candle =
  TradingDay :: int
  Close :: rat
  High :: rat
  Low :: rat

datatype signal = BULLISH | BEARISH | NEUTRAL
datatype tier = Strong | Moderate | Weak
datatype momentum_kind = Run move | Mixed
datatype volatility_tier = VolHigh | VolMedium | VolLow
datatype action = BUY_LONG | SELL_SHORT | HOLD_WAIT

text \<open>Line 129: \<^verbatim>\<open>sorted(df['TradingDay'].unique())\<close>.\<close>

definition available_dates_of :: "candle list \<Rightarrow> int list" where
  "available_dates_of df = sort (remdups (map TradingDay df))"

text \<open>\<^verbatim>\<open>list.index\<close>: the first position of a value, \<open>None\<close> where Python raises.\<close>

fun list_index :: "'a list \<Rightarrow> 'a \<Rightarrow> nat option" where
  "list_index [] x = None"
| "list_index (y # ys) x = (if y = x then Some 0 else map_option Suc (list_index ys x))"

text \<open>Lines 139 to 148.\<close>

definition select_previous_day :: "int list \<Rightarrow> int \<Rightarrow> error + int" where
  "select_previous_day available_dates prediction_date =
     (if prediction_date \<notin> set available_dates then Inl DateNotInDataset
      else
        (case list_index available_dates prediction_date of
           None \<Rightarrow> Inl ValueError
         | Some pred_index \<Rightarrow>
             if pred_index = 0 then Inl NoPreviousDay
             else Inr (available_dates ! (pred_index - 1))))"

text \<open>
  Lines 158 to 163: the day's own symbols. The column starts as FLAT everywhere and every
  row from the second on is compared with the row before it.
\<close>

definition day_movements :: "rat list \<Rightarrow> move list" where
  "day_movements closes =
     map (\<lambda>i. if i = 0 then FLAT
              else if closes ! i > closes ! (i - 1) then UP
              else if closes ! i < closes ! (i - 1) then DOWN
              else FLAT)
         [0..<length closes]"

text \<open>Lines 165 to 170.\<close>

definition patterns_of :: "move list \<Rightarrow> pattern list" where
  "patterns_of movement =
     map (\<lambda>i. (movement ! (i - 2), movement ! (i - 1), movement ! i)) [2..<length movement]"

text \<open>\<^verbatim>\<open>d.get(k, dflt)\<close>.\<close>

definition dict_get :: "('k \<times> 'v) list \<Rightarrow> 'k \<Rightarrow> 'v \<Rightarrow> 'v" where
  "dict_get d k dflt = (case map_of d k of None \<Rightarrow> dflt | Some v \<Rightarrow> v)"

text \<open>
  Lines 177 to 183, one turn of the loop on the state
  \<open>(total_up, total_down, total_flat, matched_patterns)\<close>.
\<close>

fun match_step :: "transition_matrix \<Rightarrow> pattern \<Rightarrow> rat \<times> rat \<times> rat \<times> nat \<Rightarrow> rat \<times> rat \<times> rat \<times> nat" where
  "match_step tm p (total_up, total_down, total_flat, matched) =
     (case map_of tm p of
        None \<Rightarrow> (total_up, total_down, total_flat, matched)
      | Some probs \<Rightarrow>
          (total_up + dict_get probs UP 0,
           total_down + dict_get probs DOWN 0,
           total_flat + dict_get probs FLAT 0,
           matched + 1))"

definition accumulate :: "transition_matrix \<Rightarrow> pattern list \<Rightarrow> rat \<times> rat \<times> rat \<times> nat" where
  "accumulate tm patterns_found = fold (match_step tm) patterns_found (0, 0, 0, 0)"

text \<open>Lines 189 to 192; a zero total is Python's \<^verbatim>\<open>ZeroDivisionError\<close>.\<close>

definition confidences :: "rat \<Rightarrow> rat \<Rightarrow> rat \<Rightarrow> error + rat \<times> rat \<times> rat" where
  "confidences total_up total_down total_flat =
     (let total = total_up + total_down + total_flat
      in if total = 0 then Inl ZeroDivisionError
         else Inr (total_up / total * 100, total_down / total * 100, total_flat / total * 100))"

text \<open>
  Lines 194 to 203. Python's \<^verbatim>\<open>max(a, b, c)\<close> goes from left to right; the result is
  then compared with the UP confidence first and the DOWN confidence second.
\<close>

definition predict_signal :: "rat \<Rightarrow> rat \<Rightarrow> rat \<Rightarrow> signal \<times> rat" where
  "predict_signal confidence_up confidence_down confidence_flat =
     (let max_confidence = max (max confidence_up confidence_down) confidence_flat
      in if max_confidence = confidence_up then (BULLISH, confidence_up)
         else if max_confidence = confidence_down then (BEARISH, confidence_down)
         else (NEUTRAL, confidence_flat))"

text \<open>Lines 205 to 211.\<close>

definition strength_score_of :: "rat \<Rightarrow> rat" where
  "strength_score_of max_confidence = ((max_confidence - 3333 / 100) / (6667 / 100)) * 100"

definition signal_strength_of :: "rat \<Rightarrow> tier" where
  "signal_strength_of strength_score =
     (if strength_score > 70 then Strong
      else if strength_score > 40 then Moderate
      else Weak)"

text \<open>Line 213: \<^verbatim>\<open>tail(5)\<close>, the last five symbols, or all of them when there are fewer.\<close>

definition tail5 :: "'a list \<Rightarrow> 'a list" where
  "tail5 xs = drop (length xs - 5) xs"

text \<open>
  Lines 214 to 219: the loop from the last index down to 1, with its \<^verbatim>\<open>break\<close>.
  \<open>run_from l i c\<close> is the counter after the turns for indices \<open>i\<close> down to 1,
  started with the counter at \<open>c\<close>.
\<close>

fun run_from :: "move list \<Rightarrow> nat \<Rightarrow> nat \<Rightarrow> nat" where
  "run_from l 0 c = c"
| "run_from l (Suc j) c =
     (if l ! Suc j = l ! j \<and> l ! Suc j \<noteq> FLAT then run_from l j (c + 1) else c)"

definition consecutive_of :: "move list \<Rightarrow> nat" where
  "consecutive_of last_5 = run_from last_5 (length last_5 - 1) 1"

text \<open>Lines 221 to 227.\<close>

definition momentum_type_of :: "move list \<Rightarrow> momentum_kind" where
  "momentum_type_of last_5 = (if consecutive_of last_5 > 1 then Run (last last_5) else Mixed)"

definition momentum_of :: "nat \<Rightarrow> tier" where
  "momentum_of consecutive =
     (if consecutive \<ge> 4 then Strong
      else if consecutive \<ge> 2 then Moderate
      else Weak)"

text \<open>Lines 229 and 230. The means are taken over a day of at least ten rows.\<close>

definition mean :: "rat list \<Rightarrow> rat" where
  "mean xs = sum_list xs / of_nat (length xs)"

definition volatility_of :: "rat \<Rightarrow> rat \<Rightarrow> volatility_tier" where
  "volatility_of atr mean_close =
     (if atr > mean_close * (2 / 100) then VolHigh
      else if atr > mean_close * (1 / 100) then VolMedium
      else VolLow)"

text \<open>Lines 272 to 277.\<close>

definition action_of :: "signal \<Rightarrow> tier \<Rightarrow> action" where
  "action_of prediction signal_strength =
     (if prediction = BULLISH \<and> (signal_strength = Strong \<or> signal_strength = Moderate) then BUY_LONG
      else if prediction = BEARISH \<and> (signal_strength = Strong \<or> signal_strength = Moderate) then SELL_SHORT
      else HOLD_WAIT)"

text \<open>The values the run has computed when it reaches the report.\<close>

record prediction =
  num_candles :: nat
  total_up :: rat
  total_down :: rat
  total_flat :: rat
  matched_patterns :: nat
  confidence_up :: rat
  confidence_down :: rat
  confidence_flat :: rat
  primary_signal :: signal
  confidence :: rat
  strength_score :: rat
  signal_strength :: tier
  consecutive :: nat
  momentum_type :: momentum_kind
  momentum :: tier
  atr :: rat
  volatility :: volatility_tier
  patterns_analyzed :: nat
  match_quality :: rat
  suggested_action :: action

text \<open>
  Lines 150 to 277 of \<^verbatim>\<open>main\<close>, on the rows of the previous day. Each
  \<^verbatim>\<open>sys.exit(1)\<close> is the error it reports; a division by zero is the exception.
\<close>

definition predict :: "transition_matrix \<Rightarrow> candle list \<Rightarrow> error + prediction" where
  "predict tm prev_day_df =
     (if length prev_day_df < 10 then Inl InsufficientIntradayData
      else
        (let movement = day_movements (map Close prev_day_df);
             patterns_found = patterns_of movement
         in case accumulate tm patterns_found of
              (tu, td, tf, matched) \<Rightarrow>
                if matched = 0 then Inl NoMatchingPatterns
                else
                  (case confidences tu td tf of
                     Inl e \<Rightarrow> Inl e
                   | Inr (cu, cd, cf) \<Rightarrow>
                       (let max_confidence = max (max cu cd) cf;
                            sc = strength_score_of max_confidence;
                            last_5 = tail5 movement;
                            a = mean (map (\<lambda>r. High r - Low r) prev_day_df)
                        in if patterns_found = [] then Inl ZeroDivisionError
                           else Inr \<lparr>
                             num_candles = length prev_day_df,
                             total_up = tu, total_down = td, total_flat = tf,
                             matched_patterns = matched,
                             confidence_up = cu, confidence_down = cd, confidence_flat = cf,
                             primary_signal = fst (predict_signal cu cd cf),
                             confidence = snd (predict_signal cu cd cf),
                             strength_score = sc,
                             signal_strength = signal_strength_of sc,
                             consecutive = consecutive_of last_5,
                             momentum_type = momentum_type_of last_5,
                             momentum = momentum_of (consecutive_of last_5),
                             atr = a,
                             volatility = volatility_of a (mean (map Close prev_day_df)),
                             patterns_analyzed = length patterns_found,
                             match_quality =
                               of_nat matched / of_nat (length patterns_found) * 100,
                             suggested_action =
                               action_of (fst (predict_signal cu cd cf)) (signal_strength_of sc)
                           \<rparr>))))"

text \<open>Lines 116 to 124: the training step and its summary.\<close>

record training =
  model :: transition_matrix
  counts :: pattern_counts
  unique_patterns :: nat
  avg_frequency :: rat

definition train :: "candle list \<Rightarrow> error + training" where
  "train df =
     (case build_markov_model (map Close df) of
        Inl e \<Rightarrow> Inl e
      | Inr None \<Rightarrow> Inl ModelTrainingFailed
      | Inr (Some (tm, pc)) \<Rightarrow>
          Inr \<lparr> model = tm, counts = pc, unique_patterns = length tm,
                avg_frequency =
                  (if length tm > 0
                   then of_nat (sum_list (map (\<lambda>(p, c). sum_list (map snd c)) pc)) / of_nat (length tm)
                   else 0) \<rparr>)"

text \<open>
  \<^verbatim>\<open>main\<close> on a loaded table. The date typed by the user is \<open>None\<close> when it does
  not parse.
\<close>

definition main :: "candle list \<Rightarrow> int option \<Rightarrow> error + training \<times> int \<times> prediction" where
  "main df date_input =
     (case train df of
        Inl e \<Rightarrow> Inl e
      | Inr t \<Rightarrow>
          (case date_input of
             None \<Rightarrow> Inl InvalidDateFormat
           | Some prediction_date \<Rightarrow>
               (case select_previous_day (available_dates_of df) prediction_date of
                  Inl e \<Rightarrow> Inl e
                | Inr previous_day \<Rightarrow>
                    (case predict (model t) (filter (\<lambda>r. TradingDay r = previous_day) df) of
                       Inl e \<Rightarrow> Inl e
                     | Inr p \<Rightarrow> Inr (t, previous_day, p)))))"

section \<open>A sample table\<close>

text \<open>
  Ten candles of one trading day and one candle of the next, used where a property is
  checked on a concrete run. The closes of the first day are 1, 2, 3, 4, 3, 4, 5, 6, 7, 8.
\<close>

definition sample_table :: "candle list" where
  "sample_table =
     [\<lparr>TradingDay = 1, Close = 1, High = 2, Low = 1\<rparr>,
      \<lparr>TradingDay = 1, Close = 2, High = 3, Low = 1\<rparr>,
      \<lparr>TradingDay = 1, Close = 3, High = 4, Low = 2\<rparr>,
      \<lparr>TradingDay = 1, Close = 4, High = 5, Low = 3\<rparr>,
      \<lparr>TradingDay = 1, Close = 3, High = 4, Low = 3\<rparr>,
      \<lparr>TradingDay = 1, Close = 4, High = 4, Low = 3\<rparr>,
      \<lparr>TradingDay = 1, Close = 5, High = 5, Low = 4\<rparr>,
      \<lparr>TradingDay = 1, Close = 6, High = 6, Low = 5\<rparr>,
      \<lparr>TradingDay = 1, Close = 7, High = 7, Low = 6\<rparr>,
      \<lparr>TradingDay = 1, Close = 8, High = 8, Low = 7\<rparr>,
      \<lparr>TradingDay = 2, Close = 9, High = 9, Low = 8\<rparr>]"

abbreviation sample_model :: transition_matrix where
  "sample_model \<equiv>
     [((UP, UP, UP), [(DOWN, 1 / 4), (UP, 3 / 4)]), ((UP, UP, DOWN), [(UP, 1)]),
      ((UP, DOWN, UP), [(UP, 1)]), ((DOWN, UP, UP), [(UP, 1)])]"

abbreviation sample_counts :: pattern_counts where
  "sample_counts \<equiv>
     [((UP, UP, UP), [(DOWN, 1), (UP, 3)]), ((UP, UP, DOWN), [(UP, 1)]),
      ((UP, DOWN, UP), [(UP, 1)]), ((DOWN, UP, UP), [(UP, 1)])]"

abbreviation sample_prediction :: prediction where
  "sample_prediction \<equiv>
     \<lparr>num_candles = 10, total_up = 6, total_down = 1, total_flat = 0,
      matched_patterns = 7, confidence_up = 600 / 7,
      confidence_down = 100 / 7, confidence_flat = 0,
      primary_signal = BULLISH, confidence = 600 / 7,
      strength_score = 3666900 / 46669, signal_strength = Strong,
      consecutive = 5, momentum_type = Run UP, momentum = Strong,
      atr = 13 / 10, volatility = VolHigh, patterns_analyzed = 8,
      match_quality = 175 / 2, suggested_action = BUY_LONG\<rparr>"

section \<open>The movement encoder\<close>

lemma length_movements_of: "length (movements_of closes) = length closes - 1"
  by (simp add: movements_of_def)

lemma nth_movements_of:
  assumes "i < length closes - 1"
  shows "movements_of closes ! i =
           (if closes ! (i + 1) > closes ! i then UP
            else if closes ! (i + 1) < closes ! i then DOWN
            else FLAT)"
  using assms by (simp add: movements_of_def)

text \<open>
  Claim C1. For a sequence of N closes, N at least 2, the encoder gives N - 1 symbols;
  symbol i is UP exactly when close i+1 is above close i, DOWN exactly when it is below,
  and FLAT exactly when the two are equal.
\<close>

theorem movements_of_spec:
  assumes "2 \<le> length closes"
  shows "length (movements_of closes) = length closes - 1 \<and>
         (\<forall>i < length closes - 1.
            (movements_of closes ! i = UP \<longleftrightarrow> closes ! (i + 1) > closes ! i) \<and>
            (movements_of closes ! i = DOWN \<longleftrightarrow> closes ! (i + 1) < closes ! i) \<and>
            (movements_of closes ! i = FLAT \<longleftrightarrow> closes ! (i + 1) = closes ! i))"
proof -
  have "\<And>i. i < length closes - 1 \<Longrightarrow>
          (movements_of closes ! i = UP \<longleftrightarrow> closes ! (i + 1) > closes ! i) \<and>
          (movements_of closes ! i = DOWN \<longleftrightarrow> closes ! (i + 1) < closes ! i) \<and>
          (movements_of closes ! i = FLAT \<longleftrightarrow> closes ! (i + 1) = closes ! i)"
    by (simp add: nth_movements_of)
  then show ?thesis
    by (simp add: length_movements_of)
qed

theorem movements_of_spec_witness:
  "2 \<le> length [1, 2, 2, 1 :: rat] \<and>
   movements_of [1, 2, 2, 1] = [UP, FLAT, DOWN] \<and>
   length (movements_of [1, 2, 2, 1]) = length [1, 2, 2, 1 :: rat] - 1 \<and>
   (movements_of [1, 2, 2, 1] ! 0 = UP \<longleftrightarrow> [1, 2, 2, 1 :: rat] ! (0 + 1) > [1, 2, 2, 1] ! 0)"
proof -
  have h: "2 \<le> length [1, 2, 2, 1 :: rat]" by simp
  have v: "movements_of [1, 2, 2, 1] = [UP, FLAT, DOWN]"
    by (simp add: movements_of_def upt_rec)
  from movements_of_spec [OF h] have
    "length (movements_of [1, 2, 2, 1]) = length [1, 2, 2, 1 :: rat] - 1"
    and "\<forall>i < length [1, 2, 2, 1 :: rat] - 1.
           (movements_of [1, 2, 2, 1] ! i = UP \<longleftrightarrow> [1, 2, 2, 1 :: rat] ! (i + 1) > [1, 2, 2, 1] ! i) \<and>
           (movements_of [1, 2, 2, 1] ! i = DOWN \<longleftrightarrow> [1, 2, 2, 1 :: rat] ! (i + 1) < [1, 2, 2, 1] ! i) \<and>
           (movements_of [1, 2, 2, 1] ! i = FLAT \<longleftrightarrow> [1, 2, 2, 1 :: rat] ! (i + 1) = [1, 2, 2, 1] ! i)"
    by blast+
  then show ?thesis using h v by simp
qed

section \<open>Dictionaries\<close>

lemma map_of_dict_modify:
  "map_of (dict_modify dflt f k d) =
     (map_of d)(k \<mapsto> f (case map_of d k of None \<Rightarrow> dflt | Some v \<Rightarrow> v))"
  by (induction d) (auto simp: fun_eq_iff)

lemma keys_dict_modify:
  "fst ` set (dict_modify dflt f k d) = insert k (fst ` set d)"
  by (induction dflt f k d rule: dict_modify.induct) (auto split: if_splits)

lemma distinct_dict_modify:
  "distinct (map fst d) \<Longrightarrow> distinct (map fst (dict_modify dflt f k d))"
proof (induction d)
  case Nil
  then show ?case by simp
next
  case (Cons a d)
  obtain k' v where a: "a = (k', v)" by (cases a)
  have "k' \<noteq> k \<Longrightarrow> k' \<notin> fst ` set (dict_modify dflt f k d)"
    using Cons.prems a by (simp add: keys_dict_modify)
  with Cons a show ?case by auto
qed

lemma values_dict_modify:
  assumes "\<forall>x \<in> set d. Q (snd x)" and "Q (f dflt)" and "\<And>v. Q v \<Longrightarrow> Q (f v)"
  shows "\<forall>x \<in> set (dict_modify dflt f k d). Q (snd x)"
  using assms(1) by (induction d) (force simp: assms(2,3) split: if_splits)+

lemma sum_counter_incr:
  "sum_list (map snd (dict_modify 0 Suc m c)) = Suc (sum_list (map snd c))"
  by (induction c) auto

lemma positive_counter_incr:
  "\<forall>x \<in> set c. 0 < snd x \<Longrightarrow> \<forall>x \<in> set (dict_modify 0 Suc m c). 0 < snd x"
  by (induction c) (force split: if_splits)+

section \<open>The counting loop\<close>

lemma fold_count_obs_invariant:
  assumes "I pc" and "\<And>pc p m. I pc \<Longrightarrow> I (count_obs pc p m)"
  shows "I (fold (\<lambda>i pc. count_obs pc (g i) (h i)) xs pc)"
  using assms(1) by (induction xs arbitrary: pc) (simp_all add: assms(2))

lemma distinct_count_obs:
  "distinct (map fst pc) \<Longrightarrow> distinct (map fst (count_obs pc p m))"
  by (simp add: count_obs_def distinct_dict_modify)

lemma counters_count_obs:
  assumes "\<forall>x \<in> set pc. distinct (map fst (snd x)) \<and> (\<forall>y \<in> set (snd x). 0 < snd y) \<and> snd x \<noteq> []"
  shows "\<forall>x \<in> set (count_obs pc p m).
           distinct (map fst (snd x)) \<and> (\<forall>y \<in> set (snd x). 0 < snd y) \<and> snd x \<noteq> []"
  unfolding count_obs_def
proof (rule values_dict_modify
    [where Q = "\<lambda>c. distinct (map fst c) \<and> (\<forall>y \<in> set c. 0 < snd y) \<and> c \<noteq> []", OF assms])
  show "distinct (map fst (dict_modify 0 Suc m [])) \<and>
        (\<forall>y \<in> set (dict_modify 0 Suc m []). 0 < snd y) \<and> dict_modify 0 Suc m [] \<noteq> []"
    by simp
next
  fix v :: counter
  assume v: "distinct (map fst v) \<and> (\<forall>y \<in> set v. 0 < snd y) \<and> v \<noteq> []"
  have "dict_modify 0 Suc m v \<noteq> []" by (cases v) (auto split: if_splits)
  moreover have "distinct (map fst (dict_modify 0 Suc m v))"
    using v by (simp add: distinct_dict_modify)
  moreover have "\<forall>y \<in> set (dict_modify 0 Suc m v). 0 < snd y"
    using v by (intro positive_counter_incr) blast
  ultimately show "distinct (map fst (dict_modify 0 Suc m v)) \<and>
        (\<forall>y \<in> set (dict_modify 0 Suc m v). 0 < snd y) \<and> dict_modify 0 Suc m v \<noteq> []"
    by blast
qed

lemma distinct_count_patterns: "distinct (map fst (count_patterns mv))"
  unfolding count_patterns_def
proof (rule fold_count_obs_invariant [where I = "\<lambda>pc. distinct (map fst pc)"])
  show "distinct (map fst ([] :: pattern_counts))" by simp
next
  fix pc :: pattern_counts and p m
  assume "distinct (map fst pc)"
  then show "distinct (map fst (count_obs pc p m))" by (rule distinct_count_obs)
qed

lemma counters_count_patterns:
  "\<forall>x \<in> set (count_patterns mv).
     distinct (map fst (snd x)) \<and> (\<forall>y \<in> set (snd x). 0 < snd y) \<and> snd x \<noteq> []"
  unfolding count_patterns_def
proof (rule fold_count_obs_invariant
        [where I = "\<lambda>pc. \<forall>x \<in> set pc.
           distinct (map fst (snd x)) \<and> (\<forall>y \<in> set (snd x). 0 < snd y) \<and> snd x \<noteq> []"])
  show "\<forall>x \<in> set ([] :: pattern_counts).
          distinct (map fst (snd x)) \<and> (\<forall>y \<in> set (snd x). 0 < snd y) \<and> snd x \<noteq> []"
    by simp
next
  fix pc :: pattern_counts and p m
  assume "\<forall>x \<in> set pc.
          distinct (map fst (snd x)) \<and> (\<forall>y \<in> set (snd x). 0 < snd y) \<and> snd x \<noteq> []"
  then show "\<forall>x \<in> set (count_obs pc p m).
          distinct (map fst (snd x)) \<and> (\<forall>y \<in> set (snd x). 0 < snd y) \<and> snd x \<noteq> []"
    by (rule counters_count_obs)
qed

lemma keys_count_obs: "fst ` set (count_obs pc p m) = insert p (fst ` set pc)"
  by (simp add: count_obs_def keys_dict_modify)

lemma keys_fold_count_obs:
  "fst ` set (fold (\<lambda>i pc. count_obs pc (g i) (h i)) xs pc) = fst ` set pc \<union> g ` set xs"
proof (induction xs arbitrary: pc)
  case Nil
  show ?case by simp
next
  case (Cons x xs)
  have "fst ` set (fold (\<lambda>i pc. count_obs pc (g i) (h i)) (x # xs) pc) =
          fst ` set (count_obs pc (g x) (h x)) \<union> g ` set xs"
    using Cons.IH [of "count_obs pc (g x) (h x)"] by simp
  also have "\<dots> = insert (g x) (fst ` set pc) \<union> g ` set xs"
    by (simp only: keys_count_obs)
  also have "\<dots> = fst ` set pc \<union> g ` set (x # xs)"
    by auto
  finally show ?case .
qed

lemma keys_count_patterns:
  "fst ` set (count_patterns mv) = pattern_at mv ` {3..<length mv}"
  unfolding count_patterns_def by (simp only: keys_fold_count_obs) simp

lemma dict_get_dict_modify:
  "dict_get (dict_modify dflt f k d) k' dflt' =
     (if k' = k then f (dict_get d k dflt) else dict_get d k' dflt')"
  unfolding dict_get_def by (simp only: map_of_dict_modify) simp

lemma dict_get_count_obs:
  "dict_get (dict_get (count_obs pc p m) p' []) m' 0 =
     dict_get (dict_get pc p' []) m' 0 + (if p' = p \<and> m' = m then 1 else 0)"
  unfolding count_obs_def by (simp add: dict_get_dict_modify)

lemma dict_get_fold_count_obs:
  "dict_get (dict_get (fold (\<lambda>i pc. count_obs pc (g i) (h i)) xs pc) p []) m 0 =
     dict_get (dict_get pc p []) m 0 + length (filter (\<lambda>i. g i = p \<and> h i = m) xs)"
proof (induction xs arbitrary: pc)
  case Nil
  show ?case by simp
next
  case (Cons x xs)
  show ?case
    using Cons.IH [of "count_obs pc (g x) (h x)"] by (simp add: dict_get_count_obs)
qed

lemma total_count_obs:
  "sum_list (map snd (dict_get (count_obs pc p m) p' [])) =
     sum_list (map snd (dict_get pc p' [])) + (if p' = p then 1 else 0)"
  unfolding count_obs_def by (simp add: dict_get_dict_modify sum_counter_incr)

lemma total_fold_count_obs:
  "sum_list (map snd (dict_get (fold (\<lambda>i pc. count_obs pc (g i) (h i)) xs pc) p [])) =
     sum_list (map snd (dict_get pc p [])) + length (filter (\<lambda>i. g i = p) xs)"
proof (induction xs arbitrary: pc)
  case Nil
  show ?case by simp
next
  case (Cons x xs)
  show ?case
    using Cons.IH [of "count_obs pc (g x) (h x)"] by (simp add: total_count_obs)
qed

section \<open>The trained model\<close>

lemma positive_total:
  fixes c :: counter
  assumes "c \<noteq> []" and "\<forall>y \<in> set c. 0 < snd y"
  shows "0 < sum_list (map snd c)"
  using assms by (cases c) auto

lemma to_distribution_Some:
  assumes "0 < sum_list (map snd c)"
  shows "to_distribution c =
           Some (map (\<lambda>(m, n). (m, of_nat n / of_nat (sum_list (map snd c)))) c)"
proof -
  from assms have ne: "sum_list (map snd c) \<noteq> 0" by linarith
  show ?thesis
    unfolding to_distribution_def Let_def by (simp only: ne if_False simp_thms)
qed

lemma normalize_all_positive:
  assumes "\<forall>x \<in> set pc. 0 < sum_list (map snd (snd x))"
  shows "normalize_all pc =
           Inr (map (\<lambda>(p, c). (p, map (\<lambda>(m, n). (m, of_nat n / of_nat (sum_list (map snd c)))) c)) pc)"
  using assms
proof (induction pc)
  case Nil
  show ?case by simp
next
  case (Cons a pc)
  obtain p c where a: "a = (p, c)" by (cases a)
  have "0 < sum_list (map snd c)" using Cons.prems a by simp
  then have "to_distribution c =
           Some (map (\<lambda>(m, n). (m, of_nat n / of_nat (sum_list (map snd c)))) c)"
    by (rule to_distribution_Some)
  moreover have "normalize_all pc =
           Inr (map (\<lambda>(p, c). (p, map (\<lambda>(m, n). (m, of_nat n / of_nat (sum_list (map snd c)))) c)) pc)"
    using Cons by simp
  ultimately show ?case using a by simp
qed

lemma totals_count_patterns:
  "\<forall>x \<in> set (count_patterns mv). 0 < sum_list (map snd (snd x))"
  using counters_count_patterns [of mv] positive_total by blast

lemma build_markov_model_eq:
  "build_markov_model closes =
     (if length closes < 4 then Inr None
      else Inr (Some
        (map (\<lambda>(p, c). (p, map (\<lambda>(m, n). (m, of_nat n / of_nat (sum_list (map snd c)))) c))
             (count_patterns (movements_of closes)),
         count_patterns (movements_of closes))))"
  by (simp add: build_markov_model_def Let_def normalize_all_positive [OF totals_count_patterns])

lemma trained_entry:
  assumes "build_markov_model closes = Inr (Some (tm, pc))" and "(p, d) \<in> set tm"
  shows "\<exists>c. (p, c) \<in> set pc \<and>
              d = map (\<lambda>(m, n). (m, of_nat n / of_nat (sum_list (map snd c)))) c \<and>
              distinct (map fst c) \<and> 0 < sum_list (map snd c)"
proof -
  have pc: "pc = count_patterns (movements_of closes)"
    and tm: "tm = map (\<lambda>(p, c). (p, map (\<lambda>(m, n). (m, of_nat n / of_nat (sum_list (map snd c)))) c)) pc"
    using assms(1) by (auto simp: build_markov_model_eq split: if_splits)
  from assms(2) tm obtain c where c: "(p, c) \<in> set pc"
    and d: "d = map (\<lambda>(m, n). (m, of_nat n / of_nat (sum_list (map snd c)))) c"
    by auto
  from c pc have "distinct (map fst c)" "0 < sum_list (map snd c)"
    using counters_count_patterns totals_count_patterns by fastforce+
  with c d show ?thesis by blast
qed

lemma sum_list_quotients:
  fixes t :: rat and c :: counter
  shows "sum_list (map snd (map (\<lambda>(m, n). (m, of_nat n / t)) c)) = of_nat (sum_list (map snd c)) / t"
  by (induction c) (auto simp: add_divide_distrib)

lemma sum_distribution:
  fixes c :: counter
  assumes "0 < sum_list (map snd c)"
  shows "sum_list (map snd (map (\<lambda>(m, n). (m, of_nat n / (of_nat (sum_list (map snd c)) :: rat))) c)) = 1"
proof -
  from assms have "sum_list (map snd c) \<noteq> 0" by linarith
  then have "(of_nat (sum_list (map snd c)) :: rat) \<noteq> 0"
    unfolding of_nat_eq_0_iff .
  then have "(of_nat (sum_list (map snd c)) :: rat) / of_nat (sum_list (map snd c)) = 1"
    by (rule divide_self)
  then show ?thesis by (simp only: sum_list_quotients)
qed

text \<open>
  Claim C5. For every pattern stored in the trained transition model, the outcome
  probabilities add up to exactly 1: the stored distribution is the pattern's counter with
  each count divided by the counter's total, and that total is positive.
\<close>

theorem trained_probabilities_sum_to_one:
  assumes "build_markov_model closes = Inr (Some (tm, pc))" and "(p, d) \<in> set tm"
  shows "sum_list (map snd d) = 1 \<and>
         (\<exists>c. (p, c) \<in> set pc \<and> 0 < sum_list (map snd c) \<and>
              d = map (\<lambda>(m, n). (m, of_nat n / of_nat (sum_list (map snd c)))) c)"
proof -
  from trained_entry [OF assms] obtain c where c: "(p, c) \<in> set pc"
    and d: "d = map (\<lambda>(m, n). (m, of_nat n / of_nat (sum_list (map snd c)))) c"
    and pos: "0 < sum_list (map snd c)"
    by blast
  from pos have "sum_list (map snd d) = 1"
    unfolding d by (rule sum_distribution)
  with c d pos show ?thesis by blast
qed

theorem trained_probabilities_sum_to_one_witness:
  "build_markov_model [1, 2, 3, 4, 3, 4, 5, 6, 7] =
     Inr (Some ([((UP, UP, UP), [(DOWN, 1 / 2), (UP, 1 / 2)]), ((UP, UP, DOWN), [(UP, 1)]),
                 ((UP, DOWN, UP), [(UP, 1)]), ((DOWN, UP, UP), [(UP, 1)])],
                [((UP, UP, UP), [(DOWN, 1), (UP, 1)]), ((UP, UP, DOWN), [(UP, 1)]),
                 ((UP, DOWN, UP), [(UP, 1)]), ((DOWN, UP, UP), [(UP, 1)])])) \<and>
   sum_list (map snd [(DOWN, 1 / 2 :: rat), (UP, 1 / 2)]) = 1"
proof -
  have b: "build_markov_model [1, 2, 3, 4, 3, 4, 5, 6, 7] =
     Inr (Some ([((UP, UP, UP), [(DOWN, 1 / 2), (UP, 1 / 2)]), ((UP, UP, DOWN), [(UP, 1)]),
                 ((UP, DOWN, UP), [(UP, 1)]), ((DOWN, UP, UP), [(UP, 1)])],
                [((UP, UP, UP), [(DOWN, 1), (UP, 1)]), ((UP, UP, DOWN), [(UP, 1)]),
                 ((UP, DOWN, UP), [(UP, 1)]), ((DOWN, UP, UP), [(UP, 1)])]))"
    by (simp add: build_markov_model_def movements_of_def count_patterns_def pattern_at_def
        count_obs_def to_distribution_def upt_rec)
  have m: "((UP, UP, UP), [(DOWN, 1 / 2 :: rat), (UP, 1 / 2)]) \<in>
             set [((UP, UP, UP), [(DOWN, 1 / 2), (UP, 1 / 2)]), ((UP, UP, DOWN), [(UP, 1)]),
                  ((UP, DOWN, UP), [(UP, 1)]), ((DOWN, UP, UP), [(UP, 1)])]"
    by simp
  from trained_probabilities_sum_to_one [OF b m]
  have "sum_list (map snd [(DOWN, 1 / 2 :: rat), (UP, 1 / 2)]) = 1" by blast
  with b show ?thesis by blast
qed

lemma trained_keys:
  assumes "build_markov_model closes = Inr (Some (tm, pc))"
  shows "map fst tm = map fst pc" and "pc = count_patterns (movements_of closes)"
    and "4 \<le> length closes"
proof -
  have pc: "pc = count_patterns (movements_of closes)"
    and tm: "tm = map (\<lambda>(p, c). (p, map (\<lambda>(m, n). (m, of_nat n / of_nat (sum_list (map snd c)))) c)) pc"
    and len: "4 \<le> length closes"
    using assms by (auto simp: build_markov_model_eq split: if_splits)
  show "pc = count_patterns (movements_of closes)" by (rule pc)
  show "4 \<le> length closes" by (rule len)
  show "map fst tm = map fst pc" unfolding tm by (simp add: case_prod_beta comp_def)
qed

lemma trained_distinct:
  assumes "build_markov_model closes = Inr (Some (tm, pc))"
  shows "distinct (map fst tm)"
  using trained_keys(1,2) [OF assms] distinct_count_patterns by simp

lemma trained_stored_iff:
  assumes "build_markov_model closes = Inr (Some (tm, pc))"
  shows "p \<in> fst ` set tm \<longleftrightarrow>
           (\<exists>i. 3 \<le> i \<and> i < length (movements_of closes) \<and>
                p = pattern_at (movements_of closes) i)"
proof -
  have "fst ` set tm = set (map fst tm)" by simp
  also have "\<dots> = fst ` set (count_patterns (movements_of closes))"
    using trained_keys(1,2) [OF assms] by simp
  finally have "fst ` set tm = pattern_at (movements_of closes) ` {3..<length (movements_of closes)}"
    by (simp only: keys_count_patterns)
  then show ?thesis by auto
qed

lemma dict_get_quotients:
  fixes t :: rat and c :: counter
  shows "dict_get (map (\<lambda>(m, n). (m, of_nat n / t)) c) m 0 = of_nat (dict_get c m 0) / t"
  by (induction c) (auto simp: dict_get_def)

lemma dict_get_member:
  assumes "distinct (map fst d)" and "(k, v) \<in> set d"
  shows "dict_get d k dflt = v"
  using assms by (simp add: dict_get_def)

lemma trained_probability:
  assumes "build_markov_model closes = Inr (Some (tm, pc))" and "(p, d) \<in> set tm"
  shows "dict_get d m 0 =
           of_nat (length (filter (\<lambda>i. pattern_at (movements_of closes) i = p \<and>
                                        movements_of closes ! i = m)
                                  [3..<length (movements_of closes)])) /
           of_nat (length (filter (\<lambda>i. pattern_at (movements_of closes) i = p)
                                  [3..<length (movements_of closes)]))"
proof -
  from trained_entry [OF assms] obtain c where c: "(p, c) \<in> set pc"
    and d: "d = map (\<lambda>(m, n). (m, of_nat n / of_nat (sum_list (map snd c)))) c"
    by blast
  have pc: "pc = count_patterns (movements_of closes)"
    by (rule trained_keys(2) [OF assms(1)])
  have "distinct (map fst pc)" unfolding pc by (rule distinct_count_patterns)
  then have get: "dict_get pc p [] = c" using c by (rule dict_get_member)
  have "dict_get c m 0 =
          length (filter (\<lambda>i. pattern_at (movements_of closes) i = p \<and> movements_of closes ! i = m)
                         [3..<length (movements_of closes)])"
    using dict_get_fold_count_obs
      [of "pattern_at (movements_of closes)"
          "\<lambda>i. movements_of closes ! i" "[3..<length (movements_of closes)]" "[]" p m]
    unfolding get [symmetric] pc count_patterns_def by (simp add: dict_get_def)
  moreover have "sum_list (map snd c) =
          length (filter (\<lambda>i. pattern_at (movements_of closes) i = p)
                         [3..<length (movements_of closes)])"
    using total_fold_count_obs
      [of "pattern_at (movements_of closes)"
          "\<lambda>i. movements_of closes ! i" "[3..<length (movements_of closes)]" "[]" p]
    unfolding get [symmetric] pc count_patterns_def by (simp add: dict_get_def)
  ultimately show ?thesis unfolding d by (simp only: dict_get_quotients)
qed



section \<open>Which patterns the model stores\<close>

text \<open>
  Claim C3, as the code has it. A pattern is stored in the transition model exactly when
  the training sequence shows it at least once with a symbol after it, also when it never
  comes again; the probability stored for an outcome is the number of times the outcome
  followed the pattern over the number of times the pattern was followed by any symbol. A
  pattern seen once is therefore stored with probability 1 on its outcome, and a pattern
  never seen is absent.
\<close>

theorem stored_patterns_are_the_observed_ones:
  assumes "build_markov_model closes = Inr (Some (tm, pc))"
  shows "(p \<in> fst ` set tm \<longleftrightarrow>
            (\<exists>i. 3 \<le> i \<and> i < length (movements_of closes) \<and>
                 p = pattern_at (movements_of closes) i)) \<and>
         (\<forall>d. (p, d) \<in> set tm \<longrightarrow>
            dict_get d m 0 =
              of_nat (length (filter (\<lambda>i. pattern_at (movements_of closes) i = p \<and>
                                           movements_of closes ! i = m)
                                     [3..<length (movements_of closes)])) /
              of_nat (length (filter (\<lambda>i. pattern_at (movements_of closes) i = p)
                                     [3..<length (movements_of closes)])))"
  using trained_stored_iff [OF assms] trained_probability [OF assms] by blast

text \<open>
  The closes 1, 2, 3, 2, 1 give the symbols UP, UP, DOWN, DOWN: the pattern
  (UP, UP, DOWN) occurs once, and the model stores it with DOWN at probability 1.
\<close>

theorem never_recurring_pattern_is_stored:
  "build_markov_model [1, 2, 3, 2, 1] =
     Inr (Some ([((UP, UP, DOWN), [(DOWN, 1)])], [((UP, UP, DOWN), [(DOWN, 1)])])) \<and>
   movements_of [1, 2, 3, 2, 1] = [UP, UP, DOWN, DOWN]"
  by (simp add: build_markov_model_def movements_of_def count_patterns_def pattern_at_def
      count_obs_def to_distribution_def upt_rec)

theorem stored_patterns_are_the_observed_ones_witness:
  "build_markov_model [1, 2, 3, 2, 1] =
     Inr (Some ([((UP, UP, DOWN), [(DOWN, 1)])], [((UP, UP, DOWN), [(DOWN, 1)])])) \<and>
   (UP, UP, DOWN) \<in> fst ` set [((UP, UP, DOWN), [(DOWN, 1 :: rat)])] \<and>
   (\<exists>i. 3 \<le> i \<and> i < length (movements_of [1, 2, 3, 2, 1]) \<and>
        (UP, UP, DOWN) = pattern_at (movements_of [1, 2, 3, 2, 1]) i) \<and>
   dict_get [(DOWN, 1 :: rat)] DOWN 0 = 1"
proof -
  have b: "build_markov_model [1, 2, 3, 2, 1] =
     Inr (Some ([((UP, UP, DOWN), [(DOWN, 1)])], [((UP, UP, DOWN), [(DOWN, 1)])]))"
    by (simp add: build_markov_model_def movements_of_def count_patterns_def pattern_at_def
        count_obs_def to_distribution_def upt_rec)
  have k: "(UP, UP, DOWN) \<in> fst ` set [((UP, UP, DOWN), [(DOWN, 1 :: rat)])]" by simp
  from stored_patterns_are_the_observed_ones [OF b, of "(UP, UP, DOWN)" DOWN] k
  have "\<exists>i. 3 \<le> i \<and> i < length (movements_of [1, 2, 3, 2, 1]) \<and>
        (UP, UP, DOWN) = pattern_at (movements_of [1, 2, 3, 2, 1]) i"
    by blast
  moreover have "dict_get [(DOWN, 1 :: rat)] DOWN 0 = 1" by (simp add: dict_get_def)
  ultimately show ?thesis using b k by blast
qed

section \<open>Date selection\<close>

lemma list_index_member:
  assumes "x \<in> set xs"
  shows "\<exists>i. list_index xs x = Some i \<and> i < length xs \<and> xs ! i = x"
  using assms
proof (induction xs)
  case Nil
  then show ?case by simp
next
  case (Cons y ys)
  show ?case
  proof (cases "y = x")
    case True
    then show ?thesis by simp
  next
    case False
    with Cons.prems have "x \<in> set ys" by simp
    from Cons.IH [OF this] obtain i where "list_index ys x = Some i" "i < length ys" "ys ! i = x"
      by blast
    with False show ?thesis by simp
  qed
qed

lemma available_dates_props:
  "set (available_dates_of df) = TradingDay ` set df"
  "sorted_wrt (<) (available_dates_of df)"
  by (simp_all add: available_dates_of_def strict_sorted_iff)

lemma select_previous_day_sorted:
  assumes sorted: "sorted_wrt (<) xs"
  shows "(select_previous_day xs d = Inl DateNotInDataset \<longleftrightarrow> d \<notin> set xs) \<and>
         (select_previous_day xs d = Inl NoPreviousDay \<longleftrightarrow> d \<in> set xs \<and> (\<forall>x \<in> set xs. d \<le> x)) \<and>
         (d \<in> set xs \<and> (\<exists>x \<in> set xs. x < d) \<longrightarrow>
            select_previous_day xs d = Inr (Max {x \<in> set xs. x < d}))"
proof (cases "d \<in> set xs")
  case False
  then show ?thesis by (simp add: select_previous_day_def)
next
  case True
  from list_index_member [OF True] obtain i where i: "list_index xs d = Some i"
    and len: "i < length xs" and nth: "xs ! i = d"
    by blast
  have less: "\<And>j k. j < k \<Longrightarrow> k < length xs \<Longrightarrow> xs ! j < xs ! k"
    using sorted by (simp add: sorted_wrt_iff_nth_less)
  have res: "select_previous_day xs d = (if i = 0 then Inl NoPreviousDay else Inr (xs ! (i - 1)))"
    using True i by (simp add: select_previous_day_def)
  show ?thesis
  proof (cases "i = 0")
    case True
    have "\<forall>x \<in> set xs. d \<le> x"
    proof
      fix x assume "x \<in> set xs"
      then obtain k where k: "k < length xs" "xs ! k = x" by (auto simp: in_set_conv_nth)
      show "d \<le> x"
      proof (cases "k = 0")
        case True
        with k nth \<open>i = 0\<close> show ?thesis by simp
      next
        case False
        then have "xs ! 0 < xs ! k" using k by (intro less) simp_all
        with k nth \<open>i = 0\<close> show ?thesis by simp
      qed
    qed
    moreover from this have "\<not> (\<exists>x \<in> set xs. x < d)" by fastforce
    ultimately show ?thesis using res True \<open>d \<in> set xs\<close> by simp
  next
    case False
    have prev_less: "xs ! (i - 1) < d"
      using less [of "i - 1" i] False len nth by simp
    have prev_in: "xs ! (i - 1) \<in> set xs"
      using len by (simp add: less_imp_diff_less)
    have "Max {x \<in> set xs. x < d} = xs ! (i - 1)"
    proof (rule Max_eqI)
      show "finite {x \<in> set xs. x < d}" by simp
      show "xs ! (i - 1) \<in> {x \<in> set xs. x < d}" using prev_less prev_in by simp
      fix y assume "y \<in> {x \<in> set xs. x < d}"
      then have y: "y \<in> set xs" "y < d" by simp_all
      then obtain k where k: "k < length xs" "xs ! k = y" by (auto simp: in_set_conv_nth)
      have "k < i"
      proof (rule ccontr)
        assume "\<not> k < i"
        then have "k = i \<or> i < k" by auto
        then have "d \<le> y"
        proof
          assume "k = i" with k nth show ?thesis by simp
        next
          assume "i < k"
          then have "xs ! i < xs ! k" using k by (intro less)
          with k nth show ?thesis by simp
        qed
        with y show False by simp
      qed
      show "y \<le> xs ! (i - 1)"
      proof (cases "k = i - 1")
        case True
        with k show ?thesis by simp
      next
        case False
        with \<open>k < i\<close> have "k < i - 1" by simp
        then have "xs ! k < xs ! (i - 1)" using len by (intro less) simp_all
        with k show ?thesis by simp
      qed
    qed
    moreover have "\<not> (\<forall>x \<in> set xs. d \<le> x)"
      using prev_less prev_in by fastforce
    ultimately show ?thesis using res False \<open>d \<in> set xs\<close> by simp
  qed
qed


text \<open>
  Claim C9. Date selection stops with the date-not-in-dataset error exactly when the
  requested date is not a trading day of the table, and with the no-previous-day error
  exactly when it is the earliest trading day of the table; for every other date of the
  table it goes on with the latest trading day before the requested one.
\<close>

theorem date_selection_cases:
  "(select_previous_day (available_dates_of df) d = Inl DateNotInDataset \<longleftrightarrow>
      d \<notin> TradingDay ` set df) \<and>
   (select_previous_day (available_dates_of df) d = Inl NoPreviousDay \<longleftrightarrow>
      d \<in> TradingDay ` set df \<and> (\<forall>r \<in> set df. d \<le> TradingDay r)) \<and>
   (d \<in> TradingDay ` set df \<and> (\<exists>r \<in> set df. TradingDay r < d) \<longrightarrow>
      select_previous_day (available_dates_of df) d =
        Inr (Max {x \<in> TradingDay ` set df. x < d}))"
  using select_previous_day_sorted [OF available_dates_props(2), of df d]
  unfolding available_dates_props(1) by simp


theorem date_selection_cases_witness:
  "select_previous_day (available_dates_of
     [\<lparr>TradingDay = 3, Close = 10, High = 11, Low = 9\<rparr>,
      \<lparr>TradingDay = 1, Close = 11, High = 12, Low = 10\<rparr>,
      \<lparr>TradingDay = 3, Close = 12, High = 12, Low = 11\<rparr>,
      \<lparr>TradingDay = 5, Close = 11, High = 13, Low = 11\<rparr>]) 4 = Inl DateNotInDataset \<and>
   select_previous_day (available_dates_of
     [\<lparr>TradingDay = 3, Close = 10, High = 11, Low = 9\<rparr>,
      \<lparr>TradingDay = 1, Close = 11, High = 12, Low = 10\<rparr>,
      \<lparr>TradingDay = 3, Close = 12, High = 12, Low = 11\<rparr>,
      \<lparr>TradingDay = 5, Close = 11, High = 13, Low = 11\<rparr>]) 1 = Inl NoPreviousDay \<and>
   select_previous_day (available_dates_of
     [\<lparr>TradingDay = 3, Close = 10, High = 11, Low = 9\<rparr>,
      \<lparr>TradingDay = 1, Close = 11, High = 12, Low = 10\<rparr>,
      \<lparr>TradingDay = 3, Close = 12, High = 12, Low = 11\<rparr>,
      \<lparr>TradingDay = 5, Close = 11, High = 13, Low = 11\<rparr>]) 5 = Inr 3 \<and>
   Max {x \<in> TradingDay ` set
     [\<lparr>TradingDay = 3, Close = 10, High = 11, Low = 9\<rparr>,
      \<lparr>TradingDay = 1, Close = 11, High = 12, Low = 10\<rparr>,
      \<lparr>TradingDay = 3, Close = 12, High = 12, Low = 11\<rparr>,
      \<lparr>TradingDay = 5, Close = 11, High = 13, Low = 11\<rparr>]. x < 5} = 3"
proof -
  let ?df = "[\<lparr>TradingDay = 3, Close = 10, High = 11, Low = 9\<rparr>,
      \<lparr>TradingDay = 1, Close = 11, High = 12, Low = 10\<rparr>,
      \<lparr>TradingDay = 3, Close = 12, High = 12, Low = 11\<rparr>,
      \<lparr>TradingDay = 5, Close = 11, High = 13, Low = 11\<rparr>]"
  have a: "select_previous_day (available_dates_of ?df) 4 = Inl DateNotInDataset"
    using date_selection_cases [of ?df 4] by simp
  have b: "select_previous_day (available_dates_of ?df) 1 = Inl NoPreviousDay"
    using date_selection_cases [of ?df 1] by simp
  have c: "select_previous_day (available_dates_of ?df) 5 = Inr 3"
    by (simp add: select_previous_day_def available_dates_of_def)
  have "select_previous_day (available_dates_of ?df) 5 =
          Inr (Max {x \<in> TradingDay ` set ?df. x < 5})"
    using date_selection_cases [of ?df 5] by simp
  with c have "Max {x \<in> TradingDay ` set ?df. x < 5} = 3" by simp
  with a b c show ?thesis by blast
qed

section \<open>Momentum\<close>

lemma run_from_bounds: "c \<le> run_from l i c \<and> run_from l i c \<le> c + i"
proof (induction i arbitrary: c)
  case 0
  show ?case by simp
next
  case (Suc j)
  show ?case using Suc [of "c + 1"] by simp
qed

lemma length_tail5: "length (tail5 xs) \<le> 5"
  by (simp add: tail5_def)

lemma last_tail5:
  assumes "xs \<noteq> []"
  shows "tail5 xs \<noteq> [] \<and> last (tail5 xs) = last xs"
proof -
  from assms have "0 < length xs" by simp
  then have "length xs - 5 < length xs" by linarith
  then show ?thesis by (simp add: tail5_def)
qed

lemma consecutive_of_flat:
  assumes "l \<noteq> []" and "last l = FLAT"
  shows "consecutive_of l = 1"
proof (cases "length l - 1")
  case 0
  then show ?thesis by (simp add: consecutive_of_def)
next
  case (Suc j)
  have "l ! Suc j = FLAT"
    using assms Suc by (simp add: last_conv_nth)
  moreover have "consecutive_of l = run_from l (Suc j) 1"
    unfolding consecutive_of_def Suc ..
  ultimately show ?thesis by simp
qed


text \<open>
  Claim C10. For every sequence of the day's symbols, the run counter computed from its
  last five symbols lies between 1 and 5; when the last symbol is FLAT the counter is 1, so
  the momentum is Weak and its type is Mixed, whatever run comes before the FLAT.
\<close>

theorem momentum_counter_range:
  "1 \<le> consecutive_of (tail5 movement) \<and> consecutive_of (tail5 movement) \<le> 5 \<and>
   (movement \<noteq> [] \<and> last movement = FLAT \<longrightarrow>
      consecutive_of (tail5 movement) = 1 \<and>
      momentum_of (consecutive_of (tail5 movement)) = Weak \<and>
      momentum_type_of (tail5 movement) = Mixed)"
proof -
  have lo: "1 \<le> consecutive_of (tail5 movement)"
    unfolding consecutive_of_def using run_from_bounds [of 1 "tail5 movement"] by blast
  have "consecutive_of (tail5 movement) \<le> 1 + (length (tail5 movement) - 1)"
    unfolding consecutive_of_def using run_from_bounds [of 1 "tail5 movement"] by blast
  with length_tail5 [of movement] have hi: "consecutive_of (tail5 movement) \<le> 5" by linarith
  have "consecutive_of (tail5 movement) = 1 \<and>
        momentum_of (consecutive_of (tail5 movement)) = Weak \<and>
        momentum_type_of (tail5 movement) = Mixed"
    if "movement \<noteq> []" and "last movement = FLAT"
  proof -
    from that last_tail5 [of movement] have "tail5 movement \<noteq> []" "last (tail5 movement) = FLAT"
      by simp_all
    then have "consecutive_of (tail5 movement) = 1" by (rule consecutive_of_flat)
    then show ?thesis by (simp add: momentum_of_def momentum_type_of_def)
  qed
  with lo hi show ?thesis by blast
qed

theorem momentum_counter_range_witness:
  "[UP, UP, UP, UP, UP, UP, FLAT] \<noteq> [] \<and> last [UP, UP, UP, UP, UP, UP, FLAT] = FLAT \<and>
   consecutive_of (tail5 [UP, UP, UP, UP, UP, UP, FLAT]) = 1 \<and>
   momentum_of (consecutive_of (tail5 [UP, UP, UP, UP, UP, UP, FLAT])) = Weak \<and>
   momentum_type_of (tail5 [UP, UP, UP, UP, UP, UP, FLAT]) = Mixed \<and>
   consecutive_of (tail5 [DOWN, UP, UP, UP, UP, UP]) = 5"
proof -
  have h: "[UP, UP, UP, UP, UP, UP, FLAT] \<noteq> [] \<and> last [UP, UP, UP, UP, UP, UP, FLAT] = FLAT"
    by simp
  have five: "consecutive_of (tail5 [DOWN, UP, UP, UP, UP, UP]) = 5"
    by (simp add: consecutive_of_def tail5_def numeral_eq_Suc)
  from momentum_counter_range [of "[UP, UP, UP, UP, UP, UP, FLAT]"] h five
  show ?thesis by blast
qed


section \<open>The predicted class\<close>

text \<open>
  Claim C6. The predicted class is the arg-max of the three confidences, the maximum being
  compared with the UP confidence first and with the DOWN confidence second: the class is
  bullish when UP is a maximum, bearish when DOWN is a maximum and UP is not, neutral when
  FLAT alone is the maximum. When the DOWN and FLAT confidences are equal and both above the
  UP confidence, the class is bearish.
\<close>

theorem predicted_class_is_argmax:
  "snd (predict_signal cu cd cf) = max (max cu cd) cf \<and>
   (fst (predict_signal cu cd cf) = BULLISH \<longleftrightarrow> cd \<le> cu \<and> cf \<le> cu) \<and>
   (fst (predict_signal cu cd cf) = BEARISH \<longleftrightarrow> cu < cd \<and> cf \<le> cd) \<and>
   (fst (predict_signal cu cd cf) = NEUTRAL \<longleftrightarrow> cu < cf \<and> cd < cf) \<and>
   (cd = cf \<and> cu < cd \<longrightarrow> fst (predict_signal cu cd cf) = BEARISH)"
  by (auto simp: predict_signal_def Let_def max_def)

theorem predicted_class_is_argmax_witness:
  "(40 :: rat) = 40 \<and> (20 :: rat) < 40 \<and> predict_signal 20 40 40 = (BEARISH, 40) \<and>
   predict_signal 40 40 20 = (BULLISH, 40)"
proof -
  have h: "(40 :: rat) = 40 \<and> (20 :: rat) < 40" by simp
  from predicted_class_is_argmax [of 20 40 40] h
  have "fst (predict_signal 20 40 40) = BEARISH" "snd (predict_signal 20 40 40) = 40"
    by simp_all
  then have "predict_signal 20 40 40 = (BEARISH, 40)" by (simp add: prod_eq_iff)
  moreover have "predict_signal 40 40 20 = (BULLISH, 40)" by (simp add: predict_signal_def)
  ultimately show ?thesis by simp
qed

section \<open>The accumulation of matched patterns\<close>

lemma dict_get_absent:
  assumes "k \<notin> fst ` set d"
  shows "dict_get d k dflt = dflt"
proof -
  from assms have "map_of d k = None" by (simp add: map_of_eq_None_iff)
  then show ?thesis by (simp add: dict_get_def)
qed

lemma dict_get_Cons:
  "dict_get ((k, v) # d) k' dflt = (if k' = k then v else dict_get d k' dflt)"
  by (simp add: dict_get_def)

lemma dict_get_all_moves:
  fixes d :: distribution
  assumes "distinct (map fst d)"
  shows "dict_get d UP 0 + dict_get d DOWN 0 + dict_get d FLAT 0 = sum_list (map snd d)"
  using assms
proof (induction d)
  case Nil
  show ?case by (simp add: dict_get_def)
next
  case (Cons a d)
  obtain k v where a: "a = (k, v)" by (cases a)
  from Cons.prems a have absent: "k \<notin> fst ` set d" and dist: "distinct (map fst d)"
    by simp_all
  from absent have zero: "dict_get d k 0 = 0" by (rule dict_get_absent)
  from Cons.IH [OF dist]
  have IH: "dict_get d UP 0 + dict_get d DOWN 0 + dict_get d FLAT 0 = sum_list (map snd d)" .
  show ?case
  proof (cases k)
    case UP
    with zero IH show ?thesis unfolding a by (simp add: dict_get_Cons)
  next
    case DOWN
    with zero IH show ?thesis unfolding a by (simp add: dict_get_Cons)
  next
    case FLAT
    with zero IH show ?thesis unfolding a by (simp add: dict_get_Cons)
  qed
qed

lemma trained_lookup:
  assumes "build_markov_model closes = Inr (Some (tm, pc))" and "map_of tm p = Some d"
  shows "dict_get d UP 0 + dict_get d DOWN 0 + dict_get d FLAT 0 = 1"
    and "0 \<le> dict_get d m 0"
proof -
  from assms(2) have mem: "(p, d) \<in> set tm" by (rule map_of_SomeD)
  from trained_entry [OF assms(1) mem] obtain c where
    d: "d = map (\<lambda>(m, n). (m, of_nat n / of_nat (sum_list (map snd c)))) c"
    and dist: "distinct (map fst c)" and pos: "0 < sum_list (map snd c)"
    by blast
  have "map fst d = map fst c" unfolding d by (simp add: case_prod_beta comp_def)
  with dist have "distinct (map fst d)" by simp
  then have "dict_get d UP 0 + dict_get d DOWN 0 + dict_get d FLAT 0 = sum_list (map snd d)"
    by (rule dict_get_all_moves)
  also have "\<dots> = 1" unfolding d using pos by (rule sum_distribution)
  finally show "dict_get d UP 0 + dict_get d DOWN 0 + dict_get d FLAT 0 = 1" .
  show "0 \<le> dict_get d m 0" unfolding d by (simp only: dict_get_quotients) simp
qed

lemma match_step_invariant:
  assumes trained: "build_markov_model closes = Inr (Some (tm, pc))"
    and step: "match_step tm p (tu, td, tf, k) = (tu', td', tf', k')"
    and inv: "tu + td + tf = of_nat k \<and> 0 \<le> tu \<and> 0 \<le> td \<and> 0 \<le> tf"
  shows "tu' + td' + tf' = of_nat k' \<and> 0 \<le> tu' \<and> 0 \<le> td' \<and> 0 \<le> tf'"
proof (cases "map_of tm p")
  case None
  with step inv show ?thesis by simp
next
  case (Some d)
  note l = trained_lookup [OF trained Some]
  from step Some have eqs: "tu' = tu + dict_get d UP 0" "td' = td + dict_get d DOWN 0"
    "tf' = tf + dict_get d FLAT 0" "k' = k + 1"
    by simp_all
  have "tu' + td' + tf' = (tu + td + tf) + (dict_get d UP 0 + dict_get d DOWN 0 + dict_get d FLAT 0)"
    unfolding eqs by simp
  also have "\<dots> = of_nat k + 1" using inv l(1) by simp
  finally have "tu' + td' + tf' = of_nat k'" unfolding eqs by simp
  moreover have "0 \<le> tu'" "0 \<le> td'" "0 \<le> tf'"
    unfolding eqs using inv l(2) [of UP] l(2) [of DOWN] l(2) [of FLAT] by simp_all
  ultimately show ?thesis by blast
qed

lemma fold_match_step_invariant:
  assumes trained: "build_markov_model closes = Inr (Some (tm, pc))"
    and run: "fold (match_step tm) ps (tu, td, tf, k) = (tu', td', tf', k')"
    and inv: "tu + td + tf = of_nat k \<and> 0 \<le> tu \<and> 0 \<le> td \<and> 0 \<le> tf"
  shows "tu' + td' + tf' = of_nat k' \<and> 0 \<le> tu' \<and> 0 \<le> td' \<and> 0 \<le> tf'"
  using run inv
proof (induction ps arbitrary: tu td tf k)
  case Nil
  then show ?case by simp
next
  case (Cons p ps)
  obtain u d f n where s: "match_step tm p (tu, td, tf, k) = (u, d, f, n)"
    by (cases "match_step tm p (tu, td, tf, k)") 
  from match_step_invariant [OF trained s Cons.prems(2)]
  have inv': "u + d + f = of_nat n \<and> 0 \<le> u \<and> 0 \<le> d \<and> 0 \<le> f" .
  from Cons.prems(1) s have "fold (match_step tm) ps (u, d, f, n) = (tu', td', tf', k')"
    by simp
  from Cons.IH [OF this inv'] show ?case .
qed

lemma accumulate_invariant:
  assumes "build_markov_model closes = Inr (Some (tm, pc))"
    and "accumulate tm ps = (tu, td, tf, k)"
  shows "tu + td + tf = of_nat k \<and> 0 \<le> tu \<and> 0 \<le> td \<and> 0 \<le> tf"
  using fold_match_step_invariant [OF assms(1), of ps 0 0 0 0 tu td tf k] assms(2)
  by (simp add: accumulate_def)

lemma fold_match_step_count:
  "snd (snd (snd (fold (match_step tm) ps (tu, td, tf, k)))) =
     k + length (filter (\<lambda>p. map_of tm p \<noteq> None) ps)"
proof (induction ps arbitrary: tu td tf k)
  case Nil
  show ?case by simp
next
  case (Cons p ps)
  show ?case
  proof (cases "map_of tm p")
    case None
    then show ?thesis using Cons [of tu td tf k] by simp
  next
    case (Some d)
    then show ?thesis
      using Cons [of "tu + dict_get d UP 0" "td + dict_get d DOWN 0" "tf + dict_get d FLAT 0" "k + 1"]
      by simp
  qed
qed

lemma fold_match_step_skips:
  "fold (match_step tm) ps s = fold (match_step tm) (filter (\<lambda>p. map_of tm p \<noteq> None) ps) s"
proof (induction ps arbitrary: s)
  case Nil
  show ?case by simp
next
  case (Cons p ps)
  obtain tu td tf k where s: "s = (tu, td, tf, k)" by (cases s)
  show ?case
  proof (cases "map_of tm p")
    case None
    then have "match_step tm p s = s" unfolding s by simp
    with None Cons show ?thesis by simp
  next
    case (Some d)
    with Cons show ?thesis by simp
  qed
qed

lemma length_day_patterns:
  "length (patterns_of (day_movements (map Close day))) = length day - 2"
  by (simp add: patterns_of_def day_movements_def)

lemma predict_Inr:
  assumes "predict tm day = Inr r"
  shows "\<exists>tu td tf k cu cd cf.
           10 \<le> length day \<and>
           accumulate tm (patterns_of (day_movements (map Close day))) = (tu, td, tf, k) \<and>
           0 < k \<and> confidences tu td tf = Inr (cu, cd, cf) \<and>
           total_up r = tu \<and> total_down r = td \<and> total_flat r = tf \<and>
           matched_patterns r = k \<and>
           confidence_up r = cu \<and> confidence_down r = cd \<and> confidence_flat r = cf \<and>
           strength_score r = strength_score_of (max (max cu cd) cf) \<and>
           signal_strength r = signal_strength_of (strength_score_of (max (max cu cd) cf)) \<and>
           patterns_analyzed r = length (patterns_of (day_movements (map Close day))) \<and>
           match_quality r =
             of_nat k / of_nat (length (patterns_of (day_movements (map Close day)))) * 100"
proof -
  obtain tu td tf k where acc:
    "accumulate tm (patterns_of (day_movements (map Close day))) = (tu, td, tf, k)"
    by (cases "accumulate tm (patterns_of (day_movements (map Close day)))")
  from assms have len: "10 \<le> length day"
    unfolding predict_def by (simp split: if_splits)
  from assms len acc have k: "0 < k"
    unfolding predict_def Let_def by (simp split: if_splits)
  from assms len acc k obtain cu cd cf where conf: "confidences tu td tf = Inr (cu, cd, cf)"
    unfolding predict_def Let_def by (cases "confidences tu td tf") auto
  from assms len acc k conf show ?thesis
    unfolding predict_def Let_def by (auto split: if_splits)
qed

lemma predict_total:
  assumes "10 \<le> length day"
    and "accumulate tm (patterns_of (day_movements (map Close day))) = (tu, td, tf, k)"
    and "0 < k" and "confidences tu td tf = Inr (cu, cd, cf)"
  shows "\<exists>r. predict tm day = Inr r"
proof -
  from assms(1) have "length (patterns_of (day_movements (map Close day))) \<noteq> 0"
    unfolding length_day_patterns by simp
  then have "patterns_of (day_movements (map Close day)) \<noteq> []" by simp
  with assms show ?thesis
    unfolding predict_def Let_def by simp
qed

lemma confidences_positive:
  assumes "0 < tu + td + tf"
  shows "confidences tu td tf =
           Inr (tu / (tu + td + tf) * 100, td / (tu + td + tf) * 100, tf / (tu + td + tf) * 100)"
  using assms by (simp add: confidences_def Let_def)

lemma confidences_sum:
  assumes "confidences tu td tf = Inr (cu, cd, cf)"
  shows "cu + cd + cf = 100"
proof -
  from assms have ne: "tu + td + tf \<noteq> 0"
    and eqs: "cu = tu / (tu + td + tf) * 100" "cd = td / (tu + td + tf) * 100"
       "cf = tf / (tu + td + tf) * 100"
    by (simp_all add: confidences_def Let_def split: if_splits)
  have "cu + cd + cf = (tu + td + tf) / (tu + td + tf) * 100"
    unfolding eqs by (simp only: add_divide_distrib distrib_right)
  also have "\<dots> = 100" using ne by simp
  finally show ?thesis .
qed

lemma confidences_nonneg:
  assumes "confidences tu td tf = Inr (cu, cd, cf)"
    and "0 \<le> tu" and "0 \<le> td" and "0 \<le> tf"
  shows "0 \<le> cu \<and> 0 \<le> cd \<and> 0 \<le> cf"
proof -
  from assms(1) have ne: "tu + td + tf \<noteq> 0"
    and eqs: "cu = tu / (tu + td + tf) * 100" "cd = td / (tu + td + tf) * 100"
       "cf = tf / (tu + td + tf) * 100"
    by (simp_all add: confidences_def Let_def split: if_splits)
  from assms(2-4) have "0 \<le> tu + td + tf" by simp
  with assms(2-4) show ?thesis unfolding eqs by simp
qed

lemma strength_score_nonneg:
  assumes "100 / 3 \<le> mx"
  shows "0 \<le> strength_score_of mx"
proof -
  from assms have "0 \<le> mx - 3333 / 100" by simp
  then show ?thesis unfolding strength_score_of_def by simp
qed

lemma max_of_three:
  fixes cu cd cf :: rat
  assumes "cu + cd + cf = 100"
  shows "100 / 3 \<le> max (max cu cd) cf"
  using assms by (simp add: max_def)

text \<open>The run on the sample table.\<close>

lemma sample_build:
  "build_markov_model (map Close sample_table) = Inr (Some (sample_model, sample_counts))"
  by code_simp

lemma sample_day_length: "10 \<le> length (filter (\<lambda>r. TradingDay r = 1) sample_table)"
  by (simp add: sample_table_def)

lemma sample_accumulate:
  "accumulate sample_model
     (patterns_of (day_movements (map Close (filter (\<lambda>r. TradingDay r = 1) sample_table)))) =
   (6, 1, 0, 7)"
  by code_simp

lemma sample_predict:
  "predict sample_model (filter (\<lambda>r. TradingDay r = 1) sample_table) = Inr sample_prediction"
  by code_simp

lemma sample_main:
  "main sample_table (Some 2) =
     Inr (\<lparr>model = sample_model, counts = sample_counts, unique_patterns = 4,
            avg_frequency = 7 / 4\<rparr>, 1, sample_prediction)"
  by code_simp

lemma sample_patterns:
  "patterns_of (day_movements (map Close (filter (\<lambda>r. TradingDay r = 1) sample_table))) =
     [(FLAT, UP, UP), (UP, UP, UP), (UP, UP, DOWN), (UP, DOWN, UP), (DOWN, UP, UP),
      (UP, UP, UP), (UP, UP, UP), (UP, UP, UP)]"
  by code_simp


text \<open>
  Claim C7. For a trained model and a day of at least ten candles of which at least one
  local pattern is in the model, the accumulated mass equals the number of matched patterns
  and is positive, so the normalising division is defined: the predictor returns a result,
  and its three confidence percentages add up to exactly 100.
\<close>

theorem confidences_sum_to_100:
  assumes "build_markov_model closes = Inr (Some (tm, pc))"
    and "10 \<le> length prev_day_df"
    and "accumulate tm (patterns_of (day_movements (map Close prev_day_df))) = (tu, td, tf, k)"
    and "0 < k"
  shows "tu + td + tf = of_nat k \<and> 0 < tu + td + tf \<and>
         (\<exists>r. predict tm prev_day_df = Inr r \<and> matched_patterns r = k \<and>
              confidence_up r = tu / (tu + td + tf) * 100 \<and>
              confidence_down r = td / (tu + td + tf) * 100 \<and>
              confidence_flat r = tf / (tu + td + tf) * 100 \<and>
              confidence_up r + confidence_down r + confidence_flat r = 100)"
proof -
  from accumulate_invariant [OF assms(1,3)] have total: "tu + td + tf = of_nat k" by blast
  with assms(4) have pos: "0 < tu + td + tf" by simp
  note conf = confidences_positive [OF pos]
  from predict_total [OF assms(2,3,4) conf] obtain r where r: "predict tm prev_day_df = Inr r"
    by blast
  from predict_Inr [OF r] assms(3) conf
  have fields: "matched_patterns r = k"
    "confidence_up r = tu / (tu + td + tf) * 100"
    "confidence_down r = td / (tu + td + tf) * 100"
    "confidence_flat r = tf / (tu + td + tf) * 100"
    by auto
  from confidences_sum [OF conf]
  have "confidence_up r + confidence_down r + confidence_flat r = 100"
    unfolding fields .
  with total pos r fields show ?thesis by blast
qed

theorem confidences_sum_to_100_witness:
  "build_markov_model (map Close sample_table) = Inr (Some (sample_model, sample_counts)) \<and>
   10 \<le> length (filter (\<lambda>r. TradingDay r = 1) sample_table) \<and>
   accumulate sample_model
     (patterns_of (day_movements (map Close (filter (\<lambda>r. TradingDay r = 1) sample_table)))) =
   (6, 1, 0, 7) \<and>
   (0 :: nat) < 7 \<and>
   (6 :: rat) + 1 + 0 = of_nat 7 \<and>
   (\<exists>r. predict sample_model (filter (\<lambda>r. TradingDay r = 1) sample_table) = Inr r \<and>
        confidence_up r = 6 / (6 + 1 + 0) * 100 \<and>
        confidence_up r + confidence_down r + confidence_flat r = 100)"
proof -
  have k: "(0 :: nat) < 7" by simp
  from confidences_sum_to_100 [OF sample_build sample_day_length sample_accumulate k]
  have "(6 :: rat) + 1 + 0 = of_nat 7"
    and "\<exists>r. predict sample_model (filter (\<lambda>r. TradingDay r = 1) sample_table) = Inr r \<and>
        confidence_up r = 6 / (6 + 1 + 0) * 100 \<and>
        confidence_up r + confidence_down r + confidence_flat r = 100"
    by blast+
  with sample_build sample_day_length sample_accumulate k show ?thesis by blast
qed



text \<open>
  Claim C8. Whenever the predictor returns a result for a trained model (at least one
  pattern matched), the signal strength is (max confidence - 33.33) / 66.67 * 100 and is
  never negative, the maximum of the three confidences being at least 100 / 3; the tier
  is Strong above 70, Moderate above 40 and Weak otherwise.
\<close>

theorem signal_strength_nonneg:
  assumes "build_markov_model closes = Inr (Some (tm, pc))"
    and "predict tm prev_day_df = Inr r"
  shows "0 < matched_patterns r \<and>
         strength_score r =
           ((max (max (confidence_up r) (confidence_down r)) (confidence_flat r) - 3333 / 100) /
            (6667 / 100)) * 100 \<and>
         100 / 3 \<le> max (max (confidence_up r) (confidence_down r)) (confidence_flat r) \<and>
         0 \<le> strength_score r \<and>
         (signal_strength r = Strong \<longleftrightarrow> 70 < strength_score r) \<and>
         (signal_strength r = Moderate \<longleftrightarrow> 40 < strength_score r \<and> strength_score r \<le> 70) \<and>
         (signal_strength r = Weak \<longleftrightarrow> strength_score r \<le> 40)"
proof -
  from predict_Inr [OF assms(2)] obtain tu td tf k cu cd cf where
    k: "0 < k" "matched_patterns r = k"
    and conf: "confidences tu td tf = Inr (cu, cd, cf)"
    and fields: "confidence_up r = cu" "confidence_down r = cd" "confidence_flat r = cf"
    and sc: "strength_score r = strength_score_of (max (max cu cd) cf)"
    and st: "signal_strength r = signal_strength_of (strength_score_of (max (max cu cd) cf))"
    by blast
  from confidences_sum [OF conf] have "100 / 3 \<le> max (max cu cd) cf" by (rule max_of_three)
  then have mx: "100 / 3 \<le> max (max (confidence_up r) (confidence_down r)) (confidence_flat r)"
    unfolding fields .
  then have nonneg: "0 \<le> strength_score r"
    unfolding sc fields by (rule strength_score_nonneg)
  have formula: "strength_score r =
       ((max (max (confidence_up r) (confidence_down r)) (confidence_flat r) - 3333 / 100) /
        (6667 / 100)) * 100"
    unfolding sc fields strength_score_of_def ..
  have tiers: "(signal_strength r = Strong \<longleftrightarrow> 70 < strength_score r) \<and>
         (signal_strength r = Moderate \<longleftrightarrow> 40 < strength_score r \<and> strength_score r \<le> 70) \<and>
         (signal_strength r = Weak \<longleftrightarrow> strength_score r \<le> 40)"
    unfolding st sc [symmetric] signal_strength_of_def by auto
  from k formula mx nonneg tiers show ?thesis by simp
qed

theorem signal_strength_nonneg_witness:
  "build_markov_model (map Close sample_table) = Inr (Some (sample_model, sample_counts)) \<and>
   predict sample_model (filter (\<lambda>r. TradingDay r = 1) sample_table) = Inr sample_prediction \<and>
   0 \<le> strength_score sample_prediction \<and>
   100 / 3 \<le> max (max (confidence_up sample_prediction) (confidence_down sample_prediction))
                  (confidence_flat sample_prediction) \<and>
   (signal_strength sample_prediction = Strong \<longleftrightarrow> 70 < strength_score sample_prediction)"
  using signal_strength_nonneg [OF sample_build sample_predict] sample_build sample_predict
  by blast



text \<open>
  Claim C4, as the code has it. A local pattern of the day that is absent from the model
  is skipped by the accumulation: the three masses and the matched count are those of the
  patterns present in the model alone. It does count as a pattern analyzed: that number
  is the number of all local patterns of the day, two less than the number of candles, and
  the match quality is the matched count over it, times 100.
\<close>

theorem absent_patterns_count_as_analyzed:
  assumes "predict tm prev_day_df = Inr r"
  shows "patterns_analyzed r = length (patterns_of (day_movements (map Close prev_day_df))) \<and>
         patterns_analyzed r = length prev_day_df - 2 \<and>
         matched_patterns r =
           length (filter (\<lambda>p. map_of tm p \<noteq> None)
                          (patterns_of (day_movements (map Close prev_day_df)))) \<and>
         match_quality r = of_nat (matched_patterns r) / of_nat (patterns_analyzed r) * 100 \<and>
         (total_up r, total_down r, total_flat r, matched_patterns r) =
           accumulate tm (filter (\<lambda>p. map_of tm p \<noteq> None)
                                 (patterns_of (day_movements (map Close prev_day_df))))"
proof -
  let ?ps = "patterns_of (day_movements (map Close prev_day_df))"
  from predict_Inr [OF assms] obtain tu td tf k where
    acc: "accumulate tm ?ps = (tu, td, tf, k)"
    and fields: "total_up r = tu" "total_down r = td" "total_flat r = tf" "matched_patterns r = k"
    and pa: "patterns_analyzed r = length ?ps"
    and mq: "match_quality r = of_nat k / of_nat (length ?ps) * 100"
    by blast
  have "k = snd (snd (snd (accumulate tm ?ps)))" unfolding acc by simp
  also have "\<dots> = length (filter (\<lambda>p. map_of tm p \<noteq> None) ?ps)"
    unfolding accumulate_def by (simp only: fold_match_step_count)
  finally have k: "k = length (filter (\<lambda>p. map_of tm p \<noteq> None) ?ps)" .
  have skip: "accumulate tm ?ps = accumulate tm (filter (\<lambda>p. map_of tm p \<noteq> None) ?ps)"
    unfolding accumulate_def by (rule fold_match_step_skips)
  have "(total_up r, total_down r, total_flat r, matched_patterns r) =
          accumulate tm (filter (\<lambda>p. map_of tm p \<noteq> None) ?ps)"
    unfolding fields skip [symmetric] acc ..
  moreover have "patterns_analyzed r = length prev_day_df - 2"
    unfolding pa by (rule length_day_patterns)
  moreover have "matched_patterns r = length (filter (\<lambda>p. map_of tm p \<noteq> None) ?ps)"
    unfolding fields by (rule k)
  moreover have "match_quality r = of_nat (matched_patterns r) / of_nat (patterns_analyzed r) * 100"
    unfolding fields pa by (rule mq)
  ultimately show ?thesis using pa by blast
qed

theorem absent_patterns_count_as_analyzed_witness:
  "predict sample_model (filter (\<lambda>r. TradingDay r = 1) sample_table) = Inr sample_prediction \<and>
   patterns_analyzed sample_prediction =
     length (filter (\<lambda>r. TradingDay r = 1) sample_table) - 2 \<and>
   matched_patterns sample_prediction =
     length (filter (\<lambda>p. map_of sample_model p \<noteq> None)
        (patterns_of (day_movements (map Close (filter (\<lambda>r. TradingDay r = 1) sample_table))))) \<and>
   match_quality sample_prediction =
     of_nat (matched_patterns sample_prediction) / of_nat (patterns_analyzed sample_prediction) * 100"
  using absent_patterns_count_as_analyzed [OF sample_predict] sample_predict
  by blast


text \<open>
  On the sample table the first local pattern of the day, (FLAT, UP, UP), is not in the
  model: seven of the eight patterns match, eight are reported as analyzed and the match
  quality is 87.5, not 100.
\<close>

theorem absent_pattern_is_analyzed:
  "map_sum id (patterns_analyzed \<circ> snd \<circ> snd) (main sample_table (Some 2)) = Inr 8 \<and>
   map_sum id (matched_patterns \<circ> snd \<circ> snd) (main sample_table (Some 2)) = Inr 7 \<and>
   map_sum id (match_quality \<circ> snd \<circ> snd) (main sample_table (Some 2)) = Inr (175 / 2) \<and>
   patterns_of (day_movements [1, 2, 3, 4, 3, 4, 5, 6, 7, 8]) =
     [(FLAT, UP, UP), (UP, UP, UP), (UP, UP, DOWN), (UP, DOWN, UP), (DOWN, UP, UP),
      (UP, UP, UP), (UP, UP, UP), (UP, UP, UP)] \<and>
   map_of sample_model (FLAT, UP, UP) = None"
proof -
  have "patterns_of (day_movements [1, 2, 3, 4, 3, 4, 5, 6, 7, 8]) =
     [(FLAT, UP, UP), (UP, UP, UP), (UP, UP, DOWN), (UP, DOWN, UP), (DOWN, UP, UP),
      (UP, UP, UP), (UP, UP, UP), (UP, UP, UP)]"
    by code_simp
  moreover have "map_of sample_model (FLAT, UP, UP) = None" by simp
  ultimately show ?thesis by (simp add: sample_main)
qed

section \<open>The training step on a short table\<close>

lemma count_patterns_empty_iff: "count_patterns mv = [] \<longleftrightarrow> length mv \<le> 3"
proof -
  have "count_patterns mv = [] \<longleftrightarrow> fst ` set (count_patterns mv) = {}" by simp
  also have "\<dots> \<longleftrightarrow> {3..<length mv} = {}" by (simp only: keys_count_patterns image_is_empty)
  also have "\<dots> \<longleftrightarrow> length mv \<le> 3" by auto
  finally show ?thesis .
qed

lemma build_markov_model_cases:
  "(build_markov_model closes = Inr None \<longleftrightarrow> length closes < 4) \<and>
   (4 \<le> length closes \<longrightarrow>
      (\<exists>tm pc. build_markov_model closes = Inr (Some (tm, pc)) \<and>
               (tm = [] \<longleftrightarrow> length closes = 4)))"
proof (cases "length closes < 4")
  case True
  then show ?thesis by (simp add: build_markov_model_eq)
next
  case False
  have "count_patterns (movements_of closes) = [] \<longleftrightarrow> length closes \<le> 4"
    unfolding count_patterns_empty_iff length_movements_of by linarith
  with False show ?thesis by (simp add: build_markov_model_eq)
qed

lemma train_cases:
  "(train df = Inl ModelTrainingFailed \<longleftrightarrow> length df < 4) \<and>
   (4 \<le> length df \<longrightarrow>
      (\<exists>t. train df = Inr t \<and> unique_patterns t = length (model t) \<and>
           (model t = [] \<longleftrightarrow> length df = 4)))"
proof (cases "length df < 4")
  case True
  with build_markov_model_cases [of "map Close df"]
  have "build_markov_model (map Close df) = Inr None" by simp
  with True show ?thesis by (simp add: train_def)
next
  case False
  with build_markov_model_cases [of "map Close df"] obtain tm pc where
    b: "build_markov_model (map Close df) = Inr (Some (tm, pc))"
    and e: "tm = [] \<longleftrightarrow> length df = 4"
    by auto
  from b e False show ?thesis by (simp add: train_def)
qed

lemma select_previous_day_results:
  "select_previous_day xs d = Inl DateNotInDataset \<or>
   select_previous_day xs d = Inl NoPreviousDay \<or>
   (\<exists>p. select_previous_day xs d = Inr p)"
proof (cases "d \<in> set xs")
  case False
  then show ?thesis by (simp add: select_previous_day_def)
next
  case True
  from list_index_member [OF True] obtain i where "list_index xs d = Some i" by blast
  with True show ?thesis by (simp add: select_previous_day_def)
qed

lemma predict_short_day:
  "length day < 10 \<Longrightarrow> predict tm day = Inl InsufficientIntradayData"
  by (simp add: predict_def)

lemma main_four_rows:
  assumes "length df = 4"
  shows "main df date_input = Inl InvalidDateFormat \<or>
         main df date_input = Inl DateNotInDataset \<or>
         main df date_input = Inl NoPreviousDay \<or>
         main df date_input = Inl InsufficientIntradayData"
proof -
  from assms train_cases [of df] obtain t where t: "train df = Inr t" by auto
  show ?thesis
  proof (cases date_input)
    case None
    with t show ?thesis by (simp add: main_def)
  next
    case (Some d)
    from select_previous_day_results [of "available_dates_of df" d]
    consider "select_previous_day (available_dates_of df) d = Inl DateNotInDataset"
      | "select_previous_day (available_dates_of df) d = Inl NoPreviousDay"
      | p where "select_previous_day (available_dates_of df) d = Inr p"
      by blast
    then show ?thesis
    proof cases
      case 1
      with t Some show ?thesis by (simp add: main_def)
    next
      case 2
      with t Some show ?thesis by (simp add: main_def)
    next
      case 3
      have "length (filter (\<lambda>r. TradingDay r = p) df) \<le> length df" by (rule length_filter_le)
      with assms have "length (filter (\<lambda>r. TradingDay r = p) df) < 10" by simp
      then have "predict (model t) (filter (\<lambda>r. TradingDay r = p) df) = Inl InsufficientIntradayData"
        by (rule predict_short_day)
      with t Some 3 show ?thesis by (simp add: main_def)
    qed
  qed
qed


text \<open>
  Claim C2, as the code has it. The training step fails exactly when the table has fewer
  than four rows; the emptiness of the pattern table is not checked. From four rows on the
  builder returns a model, the unique-pattern count is its size, and the model is empty
  exactly for four rows. A run on four rows goes on past training and stops at a later
  check: the date format, the date selection or the size of the previous day.
\<close>

theorem training_fails_only_below_four_rows:
  "(train df = Inl ModelTrainingFailed \<longleftrightarrow> length df < 4) \<and>
   (4 \<le> length df \<longrightarrow>
      (\<exists>t. train df = Inr t \<and> unique_patterns t = length (model t) \<and>
           (model t = [] \<longleftrightarrow> length df = 4))) \<and>
   (length df = 4 \<longrightarrow>
      main df date_input = Inl InvalidDateFormat \<or>
      main df date_input = Inl DateNotInDataset \<or>
      main df date_input = Inl NoPreviousDay \<or>
      main df date_input = Inl InsufficientIntradayData)"
  using train_cases [of df] main_four_rows [of df date_input] by blast


theorem training_fails_only_below_four_rows_witness:
  "length (take 4 sample_table) = 4 \<and>
   train (take 4 sample_table) \<noteq> Inl ModelTrainingFailed \<and>
   (\<exists>t. train (take 4 sample_table) = Inr t \<and> model t = []) \<and>
   train (take 3 sample_table) = Inl ModelTrainingFailed \<and>
   main (take 4 sample_table) (Some 1) = Inl NoPreviousDay"
proof -
  have l4: "length (take 4 sample_table) = 4" by (simp add: sample_table_def)
  have l3: "length (take 3 sample_table) < 4" by (simp add: sample_table_def)
  have m: "main (take 4 sample_table) (Some 1) = Inl NoPreviousDay" by code_simp
  from training_fails_only_below_four_rows [of "take 4 sample_table" "Some 1"] l4
  have a: "train (take 4 sample_table) \<noteq> Inl ModelTrainingFailed"
    and b: "\<exists>t. train (take 4 sample_table) = Inr t \<and> model t = []"
    by auto
  from training_fails_only_below_four_rows [of "take 3 sample_table" "Some 1"] l3
  have c: "train (take 3 sample_table) = Inl ModelTrainingFailed" by blast
  from l4 a b c m show ?thesis by blast
qed

text \<open>
  Four rows with the closes 1, 2, 3, 4 give three symbols and no pattern with an outcome:
  the builder returns the empty model, the training step succeeds with zero unique
  patterns, and the run stops only at the date selection.
\<close>

theorem empty_model_passes_training:
  "length (take 4 sample_table) = 4 \<and>
   build_markov_model (map Close (take 4 sample_table)) = Inr (Some ([], [])) \<and>
   train (take 4 sample_table) =
     Inr \<lparr>model = [], counts = [], unique_patterns = 0, avg_frequency = 0\<rparr> \<and>
   main (take 4 sample_table) (Some 1) = Inl NoPreviousDay"
  by code_simp


end
